theory Spec2Isabelle
  imports Main
begin

section \<open>The ordered storage\<close>

text \<open>
  \<^verbatim>\<open>TSMap\<close> keeps its entries in a \<^verbatim>\<open>std::map<Key, Value, std::function<bool(Key,Key)>>\<close>
  whose comparison is \<^verbatim>\<open>k1 < k2\<close> (set by the constructor). The container is modelled by
  what it stores and how it is walked: the list of its entries in ascending key order.
  An iterator is a position in that list; \<^verbatim>\<open>begin()\<close> is position 0 and \<^verbatim>\<open>end()\<close> is the
  length of the list.
\<close>

type_synonym ('k, 'v) stdmap = "('k \<times> 'v) list"

type_synonym iterator = nat

text \<open>The invariant of the container: keys strictly ascending, hence unique.\<close>

definition map_ok :: "('k::linorder, 'v) stdmap \<Rightarrow> bool" where
  "map_ok m = sorted_wrt (<) (map fst m)"

definition map_begin :: "('k, 'v) stdmap \<Rightarrow> iterator" where
  "map_begin m = 0"

definition map_end :: "('k, 'v) stdmap \<Rightarrow> iterator" where
  "map_end m = length m"

text \<open>\<^verbatim>\<open>lower_bound(k)\<close>: the first position whose key is not less than \<^verbatim>\<open>k\<close>.\<close>

definition map_lower_bound :: "('k::linorder, 'v) stdmap \<Rightarrow> 'k \<Rightarrow> iterator" where
  "map_lower_bound m k = length (takeWhile (\<lambda>e. fst e < k) m)"

text \<open>\<^verbatim>\<open>find(k)\<close>: the lower bound, when the key there is not greater than \<^verbatim>\<open>k\<close>; else \<^verbatim>\<open>end()\<close>.\<close>

definition map_find :: "('k::linorder, 'v) stdmap \<Rightarrow> 'k \<Rightarrow> iterator" where
  "map_find m k =
     (let it = map_lower_bound m k
      in if it \<noteq> map_end m \<and> \<not> k < fst (m ! it) then it else map_end m)"

text \<open>
  \<^verbatim>\<open>emplace(k, v)\<close>: nothing is stored when the key is there already; the result is the
  position of the entry with that key and whether an insertion took place.
\<close>

definition map_emplace ::
  "('k::linorder, 'v) stdmap \<Rightarrow> 'k \<Rightarrow> 'v \<Rightarrow> ('k, 'v) stdmap \<times> iterator \<times> bool" where
  "map_emplace m k v =
     (let it = map_lower_bound m k
      in if it \<noteq> map_end m \<and> \<not> k < fst (m ! it) then (m, it, False)
         else (take it m @ (k, v) # drop it m, it, True))"

text \<open>\<^verbatim>\<open>erase(k)\<close> by key: the result is the number of entries removed, 0 or 1.\<close>

definition map_erase_key :: "('k::linorder, 'v) stdmap \<Rightarrow> 'k \<Rightarrow> ('k, 'v) stdmap \<times> nat" where
  "map_erase_key m k =
     (let it = map_find m k
      in if it = map_end m then (m, 0) else (take it m @ drop (Suc it) m, 1))"

text \<open>\<^verbatim>\<open>erase(it)\<close> by position: the result is the position following the removed entry.\<close>

definition map_erase_it :: "('k, 'v) stdmap \<Rightarrow> iterator \<Rightarrow> ('k, 'v) stdmap \<times> iterator" where
  "map_erase_it m it = (take it m @ drop (Suc it) m, it)"

text \<open>
  \<^verbatim>\<open>m[k] = v\<close>: \<^verbatim>\<open>operator[]\<close> first stores a value-initialised \<^verbatim>\<open>Value{}\<close> when the key is
  absent, then the assignment writes through the reference it returns.
\<close>

definition map_subscript_assign ::
  "('k::linorder, 'v::default) stdmap \<Rightarrow> 'k \<Rightarrow> 'v \<Rightarrow> ('k, 'v) stdmap" where
  "map_subscript_assign m k v =
     (case map_emplace m k default of (m', it, _) \<Rightarrow> m'[it := (fst (m' ! it), v)])"

section \<open>The map\<close>

text \<open>
  The class holds the storage and the lock. Every operation takes the lock on entry and
  gives it back on every exit, so that a call run on its own sees and leaves the lock
  free: the operations below are the bodies of the critical sections, as functions of the
  storage. \<^verbatim>\<open>Value{}\<close> is the \<^term>\<open>default\<close> of the value type.
\<close>

record ('k, 'v) TSMap =
  m_map :: "('k, 'v) stdmap"

text \<open>
  A \<^verbatim>\<open>std::function<bool(Key, Value&)>\<close>: it reads the key and the value, may write the
  value through the reference, and may read and write what its closure has captured
  (the state \<^typ>\<open>'s\<close> of the caller). An empty \<^verbatim>\<open>std::function\<close> (\<^verbatim>\<open>nullptr\<close>) is \<^term>\<open>None\<close>.
\<close>

type_synonym ('k, 'v, 's) callback = "'k \<Rightarrow> 'v \<Rightarrow> 's \<Rightarrow> bool \<times> 'v \<times> 's"

subsection \<open>Read methods\<close>

definition find_tsmap :: "('k::linorder, 'v::default) TSMap \<Rightarrow> 'k \<Rightarrow> 'v \<times> bool" where
  "find_tsmap t k =
     (let it = map_find (m_map t) k
      in if it \<noteq> map_end (m_map t) then (snd (m_map t ! it), True)
         else (default, False))"

definition findInfimum :: "('k::linorder, 'v::default) TSMap \<Rightarrow> 'k \<Rightarrow> 'v \<times> bool" where
  "findInfimum t k =
     (let it = map_lower_bound (m_map t) k
      in if it \<noteq> map_end (m_map t) \<and> fst (m_map t ! it) = k
         then (snd (m_map t ! it), True)
         else if it = map_begin (m_map t) then (default, False)
         else (let it = it - 1 in (snd (m_map t ! it), True)))"

definition findInfimum_key ::
  "('k::{linorder,default}, 'v::default) TSMap \<Rightarrow> 'k \<Rightarrow> ('k \<times> 'v) \<times> bool" where
  "findInfimum_key t k =
     (let it = map_lower_bound (m_map t) k
      in if it \<noteq> map_end (m_map t) \<and> fst (m_map t ! it) = k
         then ((fst (m_map t ! it), snd (m_map t ! it)), True)
         else if it = map_begin (m_map t) then ((default, default), False)
         else (let it = it - 1 in ((fst (m_map t ! it), snd (m_map t ! it)), True)))"

subsection \<open>Write methods\<close>

definition emplace ::
  "('k::linorder, 'v) TSMap \<Rightarrow> 'k \<Rightarrow> 'v \<Rightarrow> bool \<Rightarrow> ('k, 'v) TSMap \<times> bool" where
  "emplace t k v force =
     (if \<not> force \<and> map_find (m_map t) k \<noteq> map_end (m_map t) then (t, False)
      else (let m1 = fst (map_erase_key (m_map t) k)
            in case map_emplace m1 k v of
                 (m2, it, inserted) \<Rightarrow> (t\<lparr>m_map := m2\<rparr>, inserted)))"

text \<open>
  \<^verbatim>\<open>createInPlace(k, args...)\<close> hands the constructor arguments to \<^verbatim>\<open>std::map::emplace\<close>;
  \<open>construct\<close> is the constructor of the value type that the arguments select.
\<close>

definition createInPlace ::
  "('a \<Rightarrow> 'v) \<Rightarrow> ('k::linorder, 'v) TSMap \<Rightarrow> 'k \<Rightarrow> 'a \<Rightarrow> ('k, 'v) TSMap \<times> bool" where
  "createInPlace construct t k args =
     (case map_emplace (m_map t) k (construct args) of
        (m', it, inserted) \<Rightarrow> (t\<lparr>m_map := m'\<rparr>, inserted))"

definition replace ::
  "('k::linorder, 'v::default) TSMap \<Rightarrow> 'k \<Rightarrow> 'v \<Rightarrow> bool \<Rightarrow> ('k, 'v) TSMap \<times> 'v \<times> bool" where
  "replace t k v force =
     (let newVal = v
      in case map_emplace (m_map t) k newVal of
           (m1, it, inserted) \<Rightarrow>
             if \<not> inserted
             then (let newVal = snd (m1 ! it);
                       m2 = (if force then map_subscript_assign m1 k v else m1)
                   in (t\<lparr>m_map := m2\<rparr>, newVal, inserted))
             else (t\<lparr>m_map := m1\<rparr>, newVal, inserted))"

text \<open>
  \<^verbatim>\<open>erase(k, f)\<close>: the callback is handed the stored value by reference, so what it writes
  is in the storage when it returns, whatever it answers.
\<close>

definition erase ::
  "('k::linorder, 'v) TSMap \<Rightarrow> 'k \<Rightarrow> ('k, 'v, 's) callback option \<Rightarrow> 's
     \<Rightarrow> ('k, 'v) TSMap \<times> bool \<times> 's" where
  "erase t k f s =
     (let it = map_find (m_map t) k
      in if it = map_end (m_map t) then (t, False, s)
         else (case f of
                 None \<Rightarrow>
                   (case map_erase_key (m_map t) k of
                      (m', n) \<Rightarrow> (t\<lparr>m_map := m'\<rparr>, n = 1, s))
               | Some g \<Rightarrow>
                   (case g k (snd (m_map t ! it)) s of
                      (ok, v', s') \<Rightarrow>
                        (let m1 = (m_map t)[it := (fst (m_map t ! it), v')]
                         in if ok
                            then (case map_erase_key m1 k of
                                    (m', n) \<Rightarrow> (t\<lparr>m_map := m'\<rparr>, n = 1, s'))
                            else (t\<lparr>m_map := m1\<rparr>, False, s')))))"

subsection \<open>Function iterators\<close>

text \<open>
  The loop of \<^verbatim>\<open>delete_if\<close>, from a position \<open>it\<close> with \<open>numErased\<close> entries erased so far.
  Positions never pass \<^verbatim>\<open>end()\<close>, so \<^verbatim>\<open>it != m_map.end()\<close> is \<open>it < map_end m\<close>. The counter
  is a \<^verbatim>\<open>size_t\<close>; it counts entries of the container and cannot wrap.
\<close>

function delete_if_loop ::
  "('k, 'v, 's) callback \<Rightarrow> ('k, 'v) stdmap \<Rightarrow> iterator \<Rightarrow> nat \<Rightarrow> 's
     \<Rightarrow> ('k, 'v) stdmap \<times> nat \<times> 's" where
  "delete_if_loop f m it numErased s =
     (if it < map_end m
      then (case f (fst (m ! it)) (snd (m ! it)) s of
              (del, v', s') \<Rightarrow>
                (let m1 = m[it := (fst (m ! it), v')]
                 in if del
                    then (case map_erase_it m1 it of
                            (m2, it2) \<Rightarrow> delete_if_loop f m2 it2 (numErased + 1) s')
                    else delete_if_loop f m1 (it + 1) numErased s'))
      else (m, numErased, s))"
  by pat_completeness auto
termination
  by (relation "measure (\<lambda>(f, m, it, n, s). length m - it)")
     (auto simp: map_end_def map_erase_it_def)

declare delete_if_loop.simps [simp del]

definition delete_if ::
  "('k, 'v) TSMap \<Rightarrow> ('k, 'v, 's) callback \<Rightarrow> 's \<Rightarrow> ('k, 'v) TSMap \<times> nat \<times> 's" where
  "delete_if t f s =
     (let numErased = 0
      in case delete_if_loop f (m_map t) (map_begin (m_map t)) numErased s of
           (m', numErased, s') \<Rightarrow> (t\<lparr>m_map := m'\<rparr>, numErased, s'))"

text \<open>
  What the claim about \<^verbatim>\<open>delete_if\<close> says, written as one pass over the entries in
  ascending key order: the callback is called once on each entry, the entries it answers
  true for are dropped and counted, the others stay, with the value the callback left.
\<close>

fun delete_if_spec ::
  "('k, 'v, 's) callback \<Rightarrow> ('k, 'v) stdmap \<Rightarrow> 's \<Rightarrow> ('k, 'v) stdmap \<times> nat \<times> 's" where
  "delete_if_spec f [] s = ([], 0, s)"
| "delete_if_spec f ((k, v) # m) s =
     (case f k v s of
        (del, v', s') \<Rightarrow>
          (case delete_if_spec f m s' of
             (m', n, s'') \<Rightarrow> if del then (m', Suc n, s'') else ((k, v') # m', n, s'')))"

subsection \<open>A caller of \<^verbatim>\<open>erase\<close>\<close>

text \<open>
  A callback on \<^verbatim>\<open>int\<close> values that adds one to the value it is handed and then refuses
  the deletion: \<^verbatim>\<open>[](int k, int& v) { v++; return false; }\<close>.
\<close>

definition increment_and_refuse :: "('k, int, 's) callback" where
  "increment_and_refuse k v s = (False, v + 1, s)"

subsection \<open>Value types of the examples\<close>

text \<open>\<^verbatim>\<open>int{}\<close> is 0 and \<^verbatim>\<open>std::string{}\<close> is the empty string.\<close>

instantiation int :: default
begin
definition default_int :: int where "default_int = 0"
instance ..
end

instantiation list :: (type) default
begin
definition default_list :: "'a list" where "default_list = []"
instance ..
end

section \<open>Properties of the storage\<close>

lemma lower_bound_le: "map_lower_bound m k \<le> length m"
  by (simp add: map_lower_bound_def length_takeWhile_le)

lemma lower_bound_before: 
  assumes "i < map_lower_bound m k" shows "fst (m ! i) < k"
proof -
  let ?tw = "takeWhile (\<lambda>e. fst e < k) m"
  from assms have i: "i < length ?tw" by (simp add: map_lower_bound_def)
  then have "?tw ! i \<in> set ?tw" by (rule nth_mem)
  then have "fst (?tw ! i) < k" by (blast dest: set_takeWhileD)
  with i show ?thesis by (simp add: takeWhile_nth)
qed

lemma lower_bound_at:
  "map_lower_bound m k < length m \<Longrightarrow> \<not> fst (m ! map_lower_bound m k) < k"
  unfolding map_lower_bound_def by (rule nth_length_takeWhile)

lemma map_ok_nth_less:
  "map_ok m \<Longrightarrow> i < j \<Longrightarrow> j < length m \<Longrightarrow> fst (m ! i) < fst (m ! j)"
  using sorted_wrt_nth_less [of "(<)" "map fst m" i j] by (simp add: map_ok_def)

lemma map_ok_distinct: "map_ok m \<Longrightarrow> distinct (map fst m)"
  by (simp add: map_ok_def strict_sorted_iff)

lemma map_ok_key_inj:
  assumes "map_ok m" "i < length m" "j < length m" "fst (m ! i) = fst (m ! j)"
  shows "i = j"
proof (rule ccontr)
  assume "i \<noteq> j"
  then consider "i < j" | "j < i" by linarith
  then show False
    using map_ok_nth_less [OF assms(1), of i j] map_ok_nth_less [OF assms(1), of j i] assms
    by cases auto
qed

lemma lower_bound_after:
  assumes "map_ok m" "map_lower_bound m k \<le> i" "i < length m"
  shows "k \<le> fst (m ! i)"
proof -
  let ?j = "map_lower_bound m k"
  from assms have j: "?j < length m" by simp
  then have "k \<le> fst (m ! ?j)" using lower_bound_at [of m k] by simp
  moreover have "fst (m ! ?j) \<le> fst (m ! i)"
  proof (cases "?j = i")
    case True then show ?thesis by simp
  next
    case False
    with assms have "?j < i" by simp
    then show ?thesis using map_ok_nth_less [OF assms(1) _ assms(3)] by fastforce
  qed
  ultimately show ?thesis by simp
qed

lemma map_find_le: "map_find m k \<le> length m"
  using lower_bound_le [of m k] by (simp add: map_find_def map_end_def Let_def)

lemma map_find_key:
  "map_find m k \<noteq> length m \<Longrightarrow> fst (m ! map_find m k) = k"
  using lower_bound_at [of m k] lower_bound_le [of m k]
  by (auto simp: map_find_def map_end_def Let_def split: if_splits)

lemma map_find_lower_bound:
  "map_find m k \<noteq> length m \<Longrightarrow> map_find m k = map_lower_bound m k"
  by (auto simp: map_find_def map_end_def Let_def split: if_splits)

lemma map_find_absent:
  assumes "k \<notin> fst ` set m" shows "map_find m k = length m"
proof (rule ccontr)
  assume n: "map_find m k \<noteq> length m"
  then have "map_find m k < length m" using map_find_le [of m k] by simp
  then have "m ! map_find m k \<in> set m" by simp
  then have "fst (m ! map_find m k) \<in> fst ` set m" by (rule imageI)
  with map_find_key [OF n] assms show False by simp
qed

lemma map_find_present:
  assumes ok: "map_ok m" and mem: "(k, v) \<in> set m"
  shows "map_find m k < length m \<and> m ! map_find m k = (k, v)"
proof -
  from mem obtain j where j: "j < length m" "m ! j = (k, v)" by (auto simp: in_set_conv_nth)
  let ?i = "map_lower_bound m k"
  have "\<not> j < ?i" using lower_bound_before [of j m k] j by auto
  then have le: "?i \<le> j" by simp
  with j have i: "?i < length m" by simp
  have "k \<le> fst (m ! ?i)" using lower_bound_at [OF i] by simp
  moreover have "fst (m ! ?i) \<le> k"
  proof (cases "?i = j")
    case True with j show ?thesis by simp
  next
    case False
    with le have "?i < j" by simp
    then show ?thesis using map_ok_nth_less [OF ok _ j(1)] j(2) by fastforce
  qed
  ultimately have eq: "fst (m ! ?i) = k" by simp
  then have "?i = j" using map_ok_key_inj [OF ok i j(1)] j(2) by simp
  moreover have "map_find m k = ?i" using i eq by (simp add: map_find_def map_end_def Let_def)
  ultimately show ?thesis using j by simp
qed

lemma map_of_mem: "map_ok m \<Longrightarrow> (map_of m k = Some v) = ((k, v) \<in> set m)"
  by (simp add: map_ok_distinct)

lemma map_of_absent: "(map_of m k = None) = (k \<notin> fst ` set m)"
  by (simp add: map_of_eq_None_iff)


lemma map_of_mid:
  assumes "distinct (map fst (xs @ (k, v) # ys))"
  shows "map_of (xs @ (k, v) # ys) = (map_of (xs @ ys))(k \<mapsto> v)"
proof -
  from assms have "k \<notin> fst ` set xs" by auto
  then have "map_of xs k = None" by (simp add: map_of_eq_None_iff)
  then show ?thesis by (auto simp: fun_eq_iff map_add_def split: option.splits)
qed

lemma map_of_del_mid:
  assumes "distinct (map fst (xs @ (k, v) # ys))"
  shows "map_of (xs @ ys) = (map_of (xs @ (k, v) # ys))(k := None)"
proof -
  from assms have "k \<notin> fst ` set xs" "k \<notin> fst ` set ys" by auto
  then have "map_of xs k = None" "map_of ys k = None" by (simp_all add: map_of_eq_None_iff)
  then show ?thesis by (auto simp: fun_eq_iff map_add_def split: option.splits)
qed

lemma map_ok_del_mid: "map_ok (xs @ e # ys) \<Longrightarrow> map_ok (xs @ ys)"
  by (auto simp: map_ok_def sorted_wrt_append)

lemma take_lower_bound_less:
  assumes "e \<in> set (take (map_lower_bound m k) m)" shows "fst e < k"
proof -
  have "take (map_lower_bound m k) m = takeWhile (\<lambda>e. fst e < k) m"
    unfolding map_lower_bound_def by (rule takeWhile_eq_take [symmetric])
  with assms show ?thesis by (auto dest: set_takeWhileD)
qed

lemma drop_lower_bound_ge:
  assumes "map_ok m" "e \<in> set (drop (map_lower_bound m k) m)" shows "k \<le> fst e"
proof -
  from assms(2) obtain j where j: "j < length m - map_lower_bound m k"
      "e = drop (map_lower_bound m k) m ! j"
    by (auto simp: in_set_conv_nth)
  then have "e = m ! (map_lower_bound m k + j)" by simp
  moreover have "k \<le> fst (m ! (map_lower_bound m k + j))"
    using j(1) by (intro lower_bound_after [OF assms(1)]) simp_all
  ultimately show ?thesis by simp
qed

lemma map_ok_insert_lower_bound:
  assumes ok: "map_ok m" and abs: "k \<notin> fst ` set m"
  shows "map_ok (take (map_lower_bound m k) m @ (k, v) # drop (map_lower_bound m k) m)"
proof -
  let ?i = "map_lower_bound m k"
  have "sorted_wrt (<) (take ?i (map fst m))" "sorted_wrt (<) (drop ?i (map fst m))"
    using ok by (simp_all add: map_ok_def sorted_wrt_take sorted_wrt_drop)
  then have 1: "sorted_wrt (<) (map fst (take ?i m))"
    and 2: "sorted_wrt (<) (map fst (drop ?i m))"
    by (simp_all add: take_map drop_map)
  have 3: "\<forall>e\<in>set (take ?i m). fst e < k" by (blast intro: take_lower_bound_less)
  have 4: "\<forall>e\<in>set (drop ?i m). k < fst e"
  proof
    fix e assume e: "e \<in> set (drop ?i m)"
    then have "k \<le> fst e" by (rule drop_lower_bound_ge [OF ok])
    moreover from e have "e \<in> set m" by (rule in_set_dropD)
    then have "fst e \<noteq> k" using abs by auto
    ultimately show "k < fst e" by simp
  qed
  from 3 4 have 5: "\<forall>x\<in>set (take ?i m). \<forall>y\<in>set (drop ?i m). fst x < fst y" by fastforce
  show ?thesis
    unfolding map_ok_def using 1 2 3 4 5 by (simp add: sorted_wrt_append)
qed

lemma map_emplace_absent:
  assumes ok: "map_ok m" and abs: "map_of m k = None"
  shows "\<exists>m' it. map_emplace m k v = (m', it, True) \<and> map_ok m'
           \<and> map_of m' = (map_of m)(k \<mapsto> v) \<and> it < length m' \<and> m' ! it = (k, v)"
proof -
  let ?i = "map_lower_bound m k"
  let ?m' = "take ?i m @ (k, v) # drop ?i m"
  from abs have nk: "k \<notin> fst ` set m" by (simp add: map_of_eq_None_iff)
  then have "map_find m k = length m" by (rule map_find_absent)
  then have e: "map_emplace m k v = (?m', ?i, True)"
    using lower_bound_le [of m k]
    by (auto simp: map_emplace_def map_find_def map_end_def Let_def split: if_splits)
  have ok': "map_ok ?m'" using ok nk by (rule map_ok_insert_lower_bound)
  then have "map_of ?m' = (map_of (take ?i m @ drop ?i m))(k \<mapsto> v)"
    by (intro map_of_mid map_ok_distinct)
  then have mo: "map_of ?m' = (map_of m)(k \<mapsto> v)" by simp
  have "?i < length ?m'" using lower_bound_le [of m k] by simp
  moreover have "?m' ! ?i = (k, v)" using lower_bound_le [of m k] by (simp add: nth_append)
  ultimately show ?thesis using e ok' mo by blast
qed

lemma map_emplace_present:
  assumes ok: "map_ok m" and pres: "map_of m k = Some v0"
  shows "map_emplace m k v = (m, map_find m k, False)"
proof -
  from ok pres have "(k, v0) \<in> set m" by (simp add: map_of_mem)
  then have "map_find m k < length m" using map_find_present [OF ok] by blast
  then show ?thesis
    by (auto simp: map_emplace_def map_find_def map_end_def Let_def split: if_splits)
qed

lemma map_erase_key_absent: "map_of m k = None \<Longrightarrow> map_erase_key m k = (m, 0)"
  by (simp add: map_erase_key_def map_end_def map_find_absent map_of_eq_None_iff)

lemma map_erase_key_present:
  assumes ok: "map_ok m" and pres: "map_of m k = Some v0"
  shows "\<exists>m'. map_erase_key m k = (m', 1) \<and> map_ok m'
           \<and> map_of m' = (map_of m)(k := None)"
proof -
  let ?i = "map_find m k"
  let ?m' = "take ?i m @ drop (Suc ?i) m"
  from ok pres have "(k, v0) \<in> set m" by (simp add: map_of_mem)
  then have i: "?i < length m" "m ! ?i = (k, v0)" using map_find_present [OF ok] by blast+
  then have m: "m = take ?i m @ (k, v0) # drop (Suc ?i) m" by (metis id_take_nth_drop)
  have e: "map_erase_key m k = (?m', 1)" using i by (simp add: map_erase_key_def map_end_def Let_def)
  have ok': "map_ok ?m'" using ok m map_ok_del_mid by metis
  have "distinct (map fst (take ?i m @ (k, v0) # drop (Suc ?i) m))"
    using ok m map_ok_distinct by metis
  then have "map_of ?m' = (map_of (take ?i m @ (k, v0) # drop (Suc ?i) m))(k := None)"
    by (rule map_of_del_mid)
  with m have "map_of ?m' = (map_of m)(k := None)" by simp
  with e ok' show ?thesis by blast
qed

lemma map_update_value:
  assumes ok: "map_ok m" and i: "i < length m"
  shows "map_ok (m[i := (fst (m ! i), v')])"
    and "map_of (m[i := (fst (m ! i), v')]) = (map_of m)(fst (m ! i) \<mapsto> v')"
proof -
  define k where "k = fst (m ! i)"
  define xs where "xs = take i m"
  define ys where "ys = drop (Suc i) m"
  have u: "m[i := (k, v')] = xs @ (k, v') # ys"
    unfolding xs_def ys_def using i by (rule upd_conv_take_nth_drop)
  have m: "m = xs @ (k, snd (m ! i)) # ys"
    unfolding xs_def ys_def k_def using i by (simp add: id_take_nth_drop [symmetric])
  have "map fst (m[i := (k, v')]) = (map fst m)[i := (map fst m) ! i]"
    using i by (simp add: map_update k_def)
  then have mf: "map fst (m[i := (k, v')]) = map fst m" by simp
  with ok show "map_ok (m[i := (fst (m ! i), v')])" by (simp add: map_ok_def k_def)
  have d2: "distinct (map fst (xs @ (k, snd (m ! i)) # ys))"
    using ok m map_ok_distinct by metis
  then have d1: "distinct (map fst (xs @ (k, v') # ys))" by simp
  have "map_of (m[i := (k, v')]) = (map_of (xs @ ys))(k \<mapsto> v')"
    using map_of_mid [OF d1] u by simp
  also have "map_of (xs @ ys) = (map_of (xs @ (k, snd (m ! i)) # ys))(k := None)"
    using d2 by (rule map_of_del_mid)
  also have "xs @ (k, snd (m ! i)) # ys = m" using m by simp
  finally show "map_of (m[i := (fst (m ! i), v')]) = (map_of m)(fst (m ! i) \<mapsto> v')"
    by (auto simp: k_def fun_eq_iff)
qed

lemma map_find_iff:
  assumes "map_ok m"
  shows "(map_find m k \<noteq> map_end m) = (map_of m k \<noteq> None)"
proof (cases "map_of m k")
  case None
  then show ?thesis by (simp add: map_find_absent map_end_def map_of_eq_None_iff)
next
  case (Some v)
  with assms have "(k, v) \<in> set m" by (simp add: map_of_mem)
  then have "map_find m k < length m" using map_find_present [OF assms] by blast
  with Some show ?thesis by (simp add: map_end_def)
qed

section \<open>Properties of the operations\<close>

text \<open>
  In the statements below, \<^term>\<open>map_of (m_map t)\<close> is the mapping the container holds:
  \<^term>\<open>map_of (m_map t) k = Some v\<close> says that key \<open>k\<close> is present with value \<open>v\<close>, and
  \<^term>\<open>map_of (m_map t) k = None\<close> that it is absent.
\<close>

text \<open>
  Claim C5. When key \<open>k\<close> is present with value \<open>v1\<close>, \<^verbatim>\<open>emplace(k, v2, force=false)\<close> returns
  false and hands back the very same map: \<open>k\<close> still maps to \<open>v1\<close> and no other entry is
  touched.
\<close>

theorem emplace_present_unchanged:
  assumes "map_ok (m_map t)" and "map_of (m_map t) k = Some v1"
  shows "emplace t k v2 False = (t, False)"
  using assms by (simp add: emplace_def map_find_iff)

text \<open>The theorem at the map \<open>{1: "a", 5: "b"}\<close> and the key 5.\<close>

theorem emplace_present_unchanged_witness:
  "map_ok (m_map \<lparr>m_map = [(1::int, ''a''), (5, ''b'')]\<rparr>)
   \<and> map_of (m_map \<lparr>m_map = [(1::int, ''a''), (5, ''b'')]\<rparr>) 5 = Some ''b''
   \<and> emplace \<lparr>m_map = [(1::int, ''a''), (5, ''b'')]\<rparr> 5 ''z'' False
       = (\<lparr>m_map = [(1, ''a''), (5, ''b'')]\<rparr>, False)"
proof -
  have 1: "map_ok (m_map \<lparr>m_map = [(1::int, ''a''), (5, ''b'')]\<rparr>)" by (simp add: map_ok_def)
  have 2: "map_of (m_map \<lparr>m_map = [(1::int, ''a''), (5, ''b'')]\<rparr>) 5 = Some ''b''" by simp
  show ?thesis using 1 2 emplace_present_unchanged [OF 1 2, where ?v2.0 = "''z''"] by simp
qed

text \<open>
  Claim C10. When key \<open>k\<close> is present, \<^verbatim>\<open>createInPlace(k, args...)\<close> returns false and hands
  back the very same map, whatever the constructor and its arguments: the stored value is
  neither overwritten nor built anew, and no other entry is touched.
\<close>

theorem createInPlace_present_unchanged:
  assumes "map_ok (m_map t)" and "map_of (m_map t) k = Some v"
  shows "createInPlace construct t k args = (t, False)"
  using map_emplace_present [OF assms] by (simp add: createInPlace_def)

text \<open>The theorem at the map \<open>{1: "a", 5: "b"}\<close>, the key 1 and a constructor call.\<close>

theorem createInPlace_present_unchanged_witness:
  "map_ok (m_map \<lparr>m_map = [(1::int, ''a''), (5, ''b'')]\<rparr>)
   \<and> map_of (m_map \<lparr>m_map = [(1::int, ''a''), (5, ''b'')]\<rparr>) 1 = Some ''a''
   \<and> createInPlace (\<lambda>n. replicate n CHR ''x'') \<lparr>m_map = [(1::int, ''a''), (5, ''b'')]\<rparr> 1 3
       = (\<lparr>m_map = [(1, ''a''), (5, ''b'')]\<rparr>, False)"
proof -
  have 1: "map_ok (m_map \<lparr>m_map = [(1::int, ''a''), (5, ''b'')]\<rparr>)" by (simp add: map_ok_def)
  have 2: "map_of (m_map \<lparr>m_map = [(1::int, ''a''), (5, ''b'')]\<rparr>) 1 = Some ''a''" by simp
  show ?thesis
    using 1 2 createInPlace_present_unchanged
        [OF 1 2, where construct = "\<lambda>n. replicate n CHR ''x''" and args = 3]
    by simp
qed

text \<open>
  Claim C8. \<^verbatim>\<open>find(k)\<close> returns the stored value and true when \<open>k\<close> is present, and a
  value-initialised \<^verbatim>\<open>Value{}\<close> and false when \<open>k\<close> is absent; right after
  \<^verbatim>\<open>emplace(k, v, force=false)\<close> on an absent key, which returns true, it returns \<open>v\<close> and
  true.
\<close>

theorem find_present_absent:
  assumes ok: "map_ok (m_map t)"
  shows "(map_of (m_map t) k = Some v \<longrightarrow> find_tsmap t k = (v, True))
       \<and> (map_of (m_map t) k = None \<longrightarrow> find_tsmap t k = (default, False))
       \<and> (map_of (m_map t) k = None \<longrightarrow>
            emplace t k v False = (fst (emplace t k v False), True)
            \<and> find_tsmap (fst (emplace t k v False)) k = (v, True))"
proof (intro conjI impI)
  assume "map_of (m_map t) k = Some v"
  with ok have "(k, v) \<in> set (m_map t)" by (simp add: map_of_mem)
  then have "map_find (m_map t) k < length (m_map t)" "m_map t ! map_find (m_map t) k = (k, v)"
    using map_find_present [OF ok] by blast+
  then show "find_tsmap t k = (v, True)" by (simp add: find_tsmap_def map_end_def)
next
  assume "map_of (m_map t) k = None"
  then show "find_tsmap t k = (default, False)"
    by (simp add: find_tsmap_def map_end_def map_find_absent map_of_eq_None_iff)
next
  assume abs: "map_of (m_map t) k = None"
  then have er: "map_erase_key (m_map t) k = (m_map t, 0)" by (rule map_erase_key_absent)
  from map_emplace_absent [OF ok abs, of v] obtain m' it where
    e: "map_emplace (m_map t) k v = (m', it, True)" and ok': "map_ok m'"
    and mo: "map_of m' = (map_of (m_map t))(k \<mapsto> v)" by blast
  have em: "emplace t k v False = (t\<lparr>m_map := m'\<rparr>, True)"
    using abs ok er e by (simp add: emplace_def map_find_iff)
  then show "emplace t k v False = (fst (emplace t k v False), True)" by simp
  from ok' mo have "(k, v) \<in> set m'" by (simp add: map_of_mem [symmetric])
  then have "map_find m' k < length m'" "m' ! map_find m' k = (k, v)"
    using map_find_present [OF ok'] by blast+
  then show "find_tsmap (fst (emplace t k v False)) k = (v, True)"
    using em by (simp add: find_tsmap_def map_end_def)
qed

text \<open>
  The theorem at the map \<open>{1: "a", 5: "b", 10: "c"}\<close>: the present key 5, and the absent
  key 7 before and after it is emplaced.
\<close>

theorem find_present_absent_witness:
  "map_ok (m_map \<lparr>m_map = [(1::int, ''a''), (5, ''b''), (10, ''c'')]\<rparr>)
   \<and> map_of (m_map \<lparr>m_map = [(1::int, ''a''), (5, ''b''), (10, ''c'')]\<rparr>) 5 = Some ''b'' \<and> find_tsmap \<lparr>m_map = [(1::int, ''a''), (5, ''b''), (10, ''c'')]\<rparr> 5 = (''b'', True)
   \<and> map_of (m_map \<lparr>m_map = [(1::int, ''a''), (5, ''b''), (10, ''c'')]\<rparr>) 7 = None \<and> find_tsmap \<lparr>m_map = [(1::int, ''a''), (5, ''b''), (10, ''c'')]\<rparr> 7 = ([], False)
   \<and> find_tsmap (fst (emplace \<lparr>m_map = [(1::int, ''a''), (5, ''b''), (10, ''c'')]\<rparr> 7 ''z'' False)) 7 = (''z'', True)"
proof -
  have 1: "map_ok (m_map \<lparr>m_map = [(1::int, ''a''), (5, ''b''), (10, ''c'')]\<rparr>)" by (simp add: map_ok_def)
  have 2: "map_of (m_map \<lparr>m_map = [(1::int, ''a''), (5, ''b''), (10, ''c'')]\<rparr>) 5 = Some ''b''" by simp
  have 3: "map_of (m_map \<lparr>m_map = [(1::int, ''a''), (5, ''b''), (10, ''c'')]\<rparr>) 7 = None" by simp
  show ?thesis
    using 1 2 3 find_present_absent [OF 1, where k = 5 and v = "''b''"]
      find_present_absent [OF 1, where k = 7 and v = "''z''"]
    by (simp add: default_list_def)
qed

lemma emplace_force_result:
  assumes ok: "map_ok (m_map t)"
  shows "\<exists>t'. emplace t k v True = (t', True) \<and> map_ok (m_map t')
           \<and> map_of (m_map t') = (map_of (m_map t))(k \<mapsto> v)"
proof -
  obtain m1 where er: "fst (map_erase_key (m_map t) k) = m1" by simp
  have m1: "map_ok m1 \<and> map_of m1 = (map_of (m_map t))(k := None)"
  proof (cases "map_of (m_map t) k")
    case None
    then show ?thesis using er ok by (auto simp: map_erase_key_absent)
  next
    case (Some v0)
    from map_erase_key_present [OF ok Some] er show ?thesis by auto
  qed
  then have "map_of m1 k = None" by simp
  with m1 map_emplace_absent [of m1 k v] obtain m2 it where
    e: "map_emplace m1 k v = (m2, it, True)" and ok2: "map_ok m2"
    and mo: "map_of m2 = (map_of m1)(k \<mapsto> v)" by blast
  have "emplace t k v True = (t\<lparr>m_map := m2\<rparr>, True)"
    using er e by (simp add: emplace_def)
  moreover have "map_of m2 = (map_of (m_map t))(k \<mapsto> v)" using mo m1 by simp
  ultimately show ?thesis using ok2 by simp
qed

lemma emplace_result:
  assumes ok: "map_ok (m_map t)"
  shows "map_ok (m_map (fst (emplace t k v force)))
       \<and> (map_of (m_map (fst (emplace t k v force))) = map_of (m_map t)
            \<or> map_of (m_map (fst (emplace t k v force))) = (map_of (m_map t))(k \<mapsto> v))"
proof (cases "\<not> force \<and> map_find (m_map t) k \<noteq> map_end (m_map t)")
  case True
  then show ?thesis using ok by (simp add: emplace_def)
next
  case False
  then have "emplace t k v force = emplace t k v True" by (auto simp: emplace_def)
  with emplace_force_result [OF ok, of k v] show ?thesis by auto
qed

text \<open>
  Claim C4. After \<^verbatim>\<open>emplace(k, v1)\<close> (with either value of its \<open>force\<close> flag), the call
  \<^verbatim>\<open>emplace(k, v2, force=true)\<close> returns true and leaves \<open>k\<close> mapped to \<open>v2\<close>, every other
  key as it was in the map before the two calls; \<^verbatim>\<open>find(k)\<close> then returns \<open>v2\<close>.
\<close>

theorem emplace_then_force:
  assumes ok: "map_ok (m_map t)"
  shows "case emplace (fst (emplace t k v1 force1)) k v2 True of
           (t', r) \<Rightarrow> r = True \<and> map_ok (m_map t')
             \<and> map_of (m_map t') = (map_of (m_map t))(k \<mapsto> v2)
             \<and> find_tsmap t' k = (v2, True)"
proof -
  let ?t1 = "fst (emplace t k v1 force1)"
  from emplace_result [OF ok, of k v1 force1]
  have ok1: "map_ok (m_map ?t1)"
    and m1: "map_of (m_map ?t1) = map_of (m_map t)
               \<or> map_of (m_map ?t1) = (map_of (m_map t))(k \<mapsto> v1)" by simp_all
  from emplace_force_result [OF ok1, of k v2] obtain t' where
    e: "emplace ?t1 k v2 True = (t', True)" and ok': "map_ok (m_map t')"
    and mo: "map_of (m_map t') = (map_of (m_map ?t1))(k \<mapsto> v2)" by blast
  from m1 mo have mo': "map_of (m_map t') = (map_of (m_map t))(k \<mapsto> v2)" by auto
  then have "(k, v2) \<in> set (m_map t')" using ok' by (simp add: map_of_mem [symmetric])
  then have "map_find (m_map t') k < length (m_map t')"
      "m_map t' ! map_find (m_map t') k = (k, v2)"
    using map_find_present [OF ok'] by blast+
  then have "find_tsmap t' k = (v2, True)" by (simp add: find_tsmap_def map_end_def)
  with e ok' mo' show ?thesis by simp
qed

text \<open>The theorem at the map \<open>{1: "a", 5: "b", 10: "c"}\<close> and the key 5.\<close>

theorem emplace_then_force_witness:
  "map_ok (m_map \<lparr>m_map = [(1::int, ''a''), (5, ''b''), (10, ''c'')]\<rparr>)
   \<and> emplace (fst (emplace \<lparr>m_map = [(1::int, ''a''), (5, ''b''), (10, ''c'')]\<rparr> 5 ''y'' False)) 5 ''z'' True
       = (\<lparr>m_map = [(1, ''a''), (5, ''z''), (10, ''c'')]\<rparr>, True)
   \<and> (case emplace (fst (emplace \<lparr>m_map = [(1::int, ''a''), (5, ''b''), (10, ''c'')]\<rparr> 5 ''y'' False)) 5 ''z'' True of
         (t', r) \<Rightarrow> r = True \<and> find_tsmap t' 5 = (''z'', True))"
proof -
  have 1: "map_ok (m_map \<lparr>m_map = [(1::int, ''a''), (5, ''b''), (10, ''c'')]\<rparr>)" by (simp add: map_ok_def)
  have 2: "emplace (fst (emplace \<lparr>m_map = [(1::int, ''a''), (5, ''b''), (10, ''c'')]\<rparr> 5 ''y'' False)) 5 ''z'' True
       = (\<lparr>m_map = [(1, ''a''), (5, ''z''), (10, ''c'')]\<rparr>, True)"
    by (simp add: emplace_def map_find_def map_lower_bound_def map_end_def map_erase_key_def
          map_emplace_def)
  show ?thesis
    using 1 2 emplace_then_force [OF 1, where k = 5 and ?v1.0 = "''y''" and ?force1.0 = False and ?v2.0 = "''z''"] by simp
qed

text \<open>
  Claim C1, as amended. When key \<open>k\<close> is present with a previous value \<open>old\<close>,
  \<^verbatim>\<open>replace(k, v, force=true)\<close> overwrites the stored value with \<open>v\<close> and returns the pair
  (previous value \<open>old\<close>, false); when \<open>k\<close> is absent it inserts \<open>v\<close> and returns (\<open>v\<close>, true).
  In both cases no other key changes.
\<close>

theorem replace_force_previous:
  assumes ok: "map_ok (m_map t)"
  shows "(map_of (m_map t) k = Some old \<longrightarrow>
           (case replace t k v True of
              (t', r) \<Rightarrow> r = (old, False) \<and> map_ok (m_map t')
                \<and> map_of (m_map t') = (map_of (m_map t))(k \<mapsto> v)))
       \<and> (map_of (m_map t) k = None \<longrightarrow>
           (case replace t k v True of
              (t', r) \<Rightarrow> r = (v, True) \<and> map_ok (m_map t')
                \<and> map_of (m_map t') = (map_of (m_map t))(k \<mapsto> v)))"
proof (intro conjI impI)
  assume pres: "map_of (m_map t) k = Some old"
  let ?m = "m_map t"
  let ?i = "map_find ?m k"
  from ok pres have "(k, old) \<in> set ?m" by (simp add: map_of_mem)
  then have i: "?i < length ?m" "?m ! ?i = (k, old)" using map_find_present [OF ok] by blast+
  have e: "map_emplace ?m k w = (?m, ?i, False)" for w
    using ok pres by (rule map_emplace_present)
  have "replace t k v True = (t\<lparr>m_map := ?m[?i := (fst (?m ! ?i), v)]\<rparr>, old, False)"
    using i by (simp add: replace_def e map_subscript_assign_def)
  moreover have "map_ok (?m[?i := (fst (?m ! ?i), v)])"
    and "map_of (?m[?i := (fst (?m ! ?i), v)]) = (map_of ?m)(fst (?m ! ?i) \<mapsto> v)"
    using map_update_value [OF ok i(1)] by simp_all
  ultimately show "case replace t k v True of
      (t', r) \<Rightarrow> r = (old, False) \<and> map_ok (m_map t')
        \<and> map_of (m_map t') = (map_of (m_map t))(k \<mapsto> v)"
    using i by simp
next
  assume abs: "map_of (m_map t) k = None"
  from map_emplace_absent [OF ok abs, of v] obtain m' it where
    e: "map_emplace (m_map t) k v = (m', it, True)" and ok': "map_ok m'"
    and mo: "map_of m' = (map_of (m_map t))(k \<mapsto> v)" by blast
  have "replace t k v True = (t\<lparr>m_map := m'\<rparr>, v, True)" using e by (simp add: replace_def)
  with ok' mo show "case replace t k v True of
      (t', r) \<Rightarrow> r = (v, True) \<and> map_ok (m_map t')
        \<and> map_of (m_map t') = (map_of (m_map t))(k \<mapsto> v)"
    by simp
qed

text \<open>
  The theorem at the map \<open>{1: "a", 5: "b", 10: "c"}\<close>: the present key 5 and the absent
  key 7.
\<close>

theorem replace_force_previous_witness:
  "map_ok (m_map \<lparr>m_map = [(1::int, ''a''), (5, ''b''), (10, ''c'')]\<rparr>)
   \<and> map_of (m_map \<lparr>m_map = [(1::int, ''a''), (5, ''b''), (10, ''c'')]\<rparr>) 5 = Some ''b'' \<and> snd (replace \<lparr>m_map = [(1::int, ''a''), (5, ''b''), (10, ''c'')]\<rparr> 5 ''z'' True) = (''b'', False)
   \<and> map_of (m_map (fst (replace \<lparr>m_map = [(1::int, ''a''), (5, ''b''), (10, ''c'')]\<rparr> 5 ''z'' True))) 5 = Some ''z''
   \<and> map_of (m_map \<lparr>m_map = [(1::int, ''a''), (5, ''b''), (10, ''c'')]\<rparr>) 7 = None \<and> snd (replace \<lparr>m_map = [(1::int, ''a''), (5, ''b''), (10, ''c'')]\<rparr> 7 ''z'' True) = (''z'', True)
   \<and> map_of (m_map (fst (replace \<lparr>m_map = [(1::int, ''a''), (5, ''b''), (10, ''c'')]\<rparr> 7 ''z'' True))) 7 = Some ''z''"
proof -
  have 1: "map_ok (m_map \<lparr>m_map = [(1::int, ''a''), (5, ''b''), (10, ''c'')]\<rparr>)" by (simp add: map_ok_def)
  have 2: "map_of (m_map \<lparr>m_map = [(1::int, ''a''), (5, ''b''), (10, ''c'')]\<rparr>) 5 = Some ''b''" by simp
  have 3: "map_of (m_map \<lparr>m_map = [(1::int, ''a''), (5, ''b''), (10, ''c'')]\<rparr>) 7 = None" by simp
  show ?thesis
    using 1 2 3 replace_force_previous [OF 1, where k = 5 and old = "''b''" and v = "''z''"]
      replace_force_previous [OF 1, where k = 7 and old = "''b''" and v = "''z''"]
    by (auto split: prod.splits)
qed

text \<open>
  Claim C1 as it is written says that the call on a present key returns the new value.
  On the map \<open>{1: "a"}\<close>, \<^verbatim>\<open>replace(1, "b", true)\<close> stores \<open>"b"\<close> and returns \<open>("a", false)\<close>: the
  value that was there before, as the comment above the function announces.
\<close>

theorem replace_force_counterexample:
  "map_ok [(1::int, ''a'')] \<and> map_of [(1::int, ''a'')] 1 = Some ''a''
   \<and> replace \<lparr>m_map = [(1::int, ''a'')]\<rparr> 1 ''b'' True = (\<lparr>m_map = [(1, ''b'')]\<rparr>, ''a'', False)
   \<and> snd (replace \<lparr>m_map = [(1::int, ''a'')]\<rparr> 1 ''b'' True) \<noteq> (''b'', False)"
  by (simp add: replace_def map_emplace_def map_lower_bound_def map_end_def
       map_subscript_assign_def map_ok_def)

text \<open>
  Claim C7, as amended. \<^verbatim>\<open>erase(k, fn)\<close> removes the entry and returns true exactly when
  \<open>k\<close> is present and \<open>fn\<close> is empty or answers true; in every other case it returns false
  and removes nothing. When \<open>k\<close> is absent the map is the very same. When \<open>fn\<close> answers
  false the keys are the same and \<open>k\<close> holds the value \<open>fn\<close> left in its reference argument,
  so the map is the very same when \<open>fn\<close> did not write to it.
\<close>

theorem erase_cases:
  assumes ok: "map_ok (m_map t)"
  shows "(map_of (m_map t) k = None \<longrightarrow> erase t k f s = (t, False, s))
       \<and> (map_of (m_map t) k = Some v \<longrightarrow>
            (case erase t k None s of
               (t', r, s') \<Rightarrow> r = True \<and> s' = s \<and> map_ok (m_map t')
                 \<and> map_of (m_map t') = (map_of (m_map t))(k := None)))
       \<and> (map_of (m_map t) k = Some v \<and> g k v s = (True, v', s1) \<longrightarrow>
            (case erase t k (Some g) s of
               (t', r, s') \<Rightarrow> r = True \<and> s' = s1 \<and> map_ok (m_map t')
                 \<and> map_of (m_map t') = (map_of (m_map t))(k := None)))
       \<and> (map_of (m_map t) k = Some v \<and> g k v s = (False, v', s1) \<longrightarrow>
            (case erase t k (Some g) s of
               (t', r, s') \<Rightarrow> r = False \<and> s' = s1 \<and> map_ok (m_map t')
                 \<and> map_of (m_map t') = (map_of (m_map t))(k \<mapsto> v')
                 \<and> map fst (m_map t') = map fst (m_map t)))
       \<and> (map_of (m_map t) k = Some v \<and> g k v s = (False, v, s1) \<longrightarrow>
            erase t k (Some g) s = (t, False, s1))"
proof -
  let ?m = "m_map t"
  let ?i = "map_find ?m k"
  have absent: "erase t k f s = (t, False, s)" if "map_of ?m k = None"
    using that by (simp add: erase_def map_end_def map_find_absent map_of_eq_None_iff)
  have i: "?i < length ?m \<and> ?m ! ?i = (k, v)" if "map_of ?m k = Some v"
  proof -
    from ok that have "(k, v) \<in> set ?m" by (simp add: map_of_mem)
    then show ?thesis using map_find_present [OF ok] by blast
  qed
  have none: "case erase t k None s of
       (t', r, s') \<Rightarrow> r = True \<and> s' = s \<and> map_ok (m_map t')
         \<and> map_of (m_map t') = (map_of ?m)(k := None)" if p: "map_of ?m k = Some v"
  proof -
    from map_erase_key_present [OF ok p] obtain m' where
      "map_erase_key ?m k = (m', 1)" "map_ok m'" "map_of m' = (map_of ?m)(k := None)" by blast
    then show ?thesis using i [OF p] by (simp add: erase_def map_end_def)
  qed
  have upd: "map_ok (?m[?i := (k, v')]) \<and> map_of (?m[?i := (k, v')]) = (map_of ?m)(k \<mapsto> v')
      \<and> map fst (?m[?i := (k, v')]) = map fst ?m"
    if p: "map_of ?m k = Some v"
  proof -
    from i [OF p] have il: "?i < length ?m" and ik: "fst (?m ! ?i) = k" by simp_all
    have "map fst (?m[?i := (k, v')]) = (map fst ?m)[?i := (map fst ?m) ! ?i]"
      using il ik by (simp add: map_update)
    then have "map fst (?m[?i := (k, v')]) = map fst ?m" by simp
    with map_update_value [OF ok il, of v'] ik show ?thesis by simp
  qed
  have yes: "case erase t k (Some g) s of
       (t', r, s') \<Rightarrow> r = True \<and> s' = s1 \<and> map_ok (m_map t')
         \<and> map_of (m_map t') = (map_of ?m)(k := None)"
    if p: "map_of ?m k = Some v" and g: "g k v s = (True, v', s1)"
  proof -
    let ?m1 = "?m[?i := (k, v')]"
    from upd [OF p] have ok1: "map_ok ?m1" and p1: "map_of ?m1 k = Some v'" by simp_all
    from map_erase_key_present [OF ok1 p1] obtain m' where
      e: "map_erase_key ?m1 k = (m', 1)" and ok': "map_ok m'"
      and mo: "map_of m' = (map_of ?m1)(k := None)" by blast
    have "erase t k (Some g) s = (t\<lparr>m_map := m'\<rparr>, True, s1)"
      using i [OF p] g e by (simp add: erase_def map_end_def)
    moreover have "map_of m' = (map_of ?m)(k := None)" using mo upd [OF p] by simp
    ultimately show ?thesis using ok' by simp
  qed
  have no: "case erase t k (Some g) s of
       (t', r, s') \<Rightarrow> r = False \<and> s' = s1 \<and> map_ok (m_map t')
         \<and> map_of (m_map t') = (map_of ?m)(k \<mapsto> v')
         \<and> map fst (m_map t') = map fst ?m"
    if p: "map_of ?m k = Some v" and g: "g k v s = (False, v', s1)"
  proof -
    have "erase t k (Some g) s = (t\<lparr>m_map := ?m[?i := (k, v')]\<rparr>, False, s1)"
      using i [OF p] g by (simp add: erase_def map_end_def)
    then show ?thesis using upd [OF p] by simp
  qed
  have same: "erase t k (Some g) s = (t, False, s1)"
    if p: "map_of ?m k = Some v" and g: "g k v s = (False, v, s1)"
  proof -
    from i [OF p] have "?m[?i := (k, v)] = ?m" by (metis list_update_id)
    moreover have "erase t k (Some g) s = (t\<lparr>m_map := ?m[?i := (k, v)]\<rparr>, False, s1)"
      using i [OF p] g by (simp add: erase_def map_end_def)
    ultimately show ?thesis by simp
  qed
  show ?thesis
    apply (intro conjI impI)
        apply (erule absent)
       apply (erule none)
      apply (elim conjE, erule (1) yes)
     apply (elim conjE, erule (1) no)
    apply (elim conjE, erule (1) same)
    done
qed

text \<open>
  The theorem at the map \<open>{1: 5, 2: 7}\<close>: the absent key 3, and the present key 1 with no
  callback, with callbacks that accept and refuse after adding one to the value, and with
  a callback that refuses and writes nothing.
\<close>

theorem erase_cases_witness:
  "map_ok (m_map \<lparr>m_map = [(1::int, 5::int), (2, 7)]\<rparr>)
   \<and> map_of (m_map \<lparr>m_map = [(1::int, 5::int), (2, 7)]\<rparr>) 3 = None
   \<and> erase \<lparr>m_map = [(1::int, 5::int), (2, 7)]\<rparr> 3 (Some (\<lambda>k v s. (True, v + 1, Suc s))) 0
       = (\<lparr>m_map = [(1, 5), (2, 7)]\<rparr>, False, 0)
   \<and> map_of (m_map \<lparr>m_map = [(1::int, 5::int), (2, 7)]\<rparr>) 1 = Some 5
   \<and> erase \<lparr>m_map = [(1::int, 5::int), (2, 7)]\<rparr> 1 None (0::nat)
       = (\<lparr>m_map = [(2, 7)]\<rparr>, True, 0)
   \<and> erase \<lparr>m_map = [(1::int, 5::int), (2, 7)]\<rparr> 1 (Some (\<lambda>k v s. (True, v + 1, Suc s))) 0
       = (\<lparr>m_map = [(2, 7)]\<rparr>, True, 1)
   \<and> erase \<lparr>m_map = [(1::int, 5::int), (2, 7)]\<rparr> 1 (Some (\<lambda>k v s. (False, v + 1, Suc s))) 0
       = (\<lparr>m_map = [(1, 6), (2, 7)]\<rparr>, False, 1)
   \<and> erase \<lparr>m_map = [(1::int, 5::int), (2, 7)]\<rparr> 1 (Some (\<lambda>k v s. (False, v, Suc s))) 0
       = (\<lparr>m_map = [(1, 5), (2, 7)]\<rparr>, False, 1)"
proof -
  have 1: "map_ok (m_map \<lparr>m_map = [(1::int, 5::int), (2, 7)]\<rparr>)" by (simp add: map_ok_def)
  have 2: "(case erase \<lparr>m_map = [(1::int, 5::int), (2, 7)]\<rparr> 1 None (0::nat) of
             (t', r, s') \<Rightarrow> m_map t') = [(2, 7)]"
    "(case erase \<lparr>m_map = [(1::int, 5::int), (2, 7)]\<rparr> 1
              (Some (\<lambda>k v s. (True, v + 1, Suc s))) 0 of (t', r, s') \<Rightarrow> m_map t') = [(2, 7)]"
    "(case erase \<lparr>m_map = [(1::int, 5::int), (2, 7)]\<rparr> 1
              (Some (\<lambda>k v s. (False, v + 1, Suc s))) 0 of (t', r, s') \<Rightarrow> m_map t')
       = [(1, 6), (2, 7)]"
    by (simp_all add: erase_def map_find_def map_lower_bound_def map_end_def map_erase_key_def)
  show ?thesis
    using 1 2
      erase_cases [OF 1, where k = 3 and v = 5 and s = 0 and v' = 6 and ?s1.0 = 1
        and f = "Some (\<lambda>k v s. (True, v + 1, Suc s))" and g = "\<lambda>k v s. (True, v + 1, Suc s)"]
      erase_cases [OF 1, where k = 1 and v = 5 and s = 0 and v' = 6 and ?s1.0 = 1
        and f = None and g = "\<lambda>k v s. (True, v + 1, Suc s)"]
      erase_cases [OF 1, where k = 1 and v = 5 and s = 0 and v' = 6 and ?s1.0 = 1
        and f = None and g = "\<lambda>k v s. (False, v + 1, Suc s)"]
      erase_cases [OF 1, where k = 1 and v = 5 and s = 0 and v' = 5 and ?s1.0 = 1
        and f = None and g = "\<lambda>k v s. (False, v, Suc s)"]
    by (auto split: prod.splits)
qed

text \<open>
  Claim C7 as it is written says that the map is unchanged whenever \<open>fn\<close> returns false. The
  callback receives the stored value by non-const reference: on the map \<open>{1: 5}\<close>, a
  callback that adds one to the value and then refuses leaves the map \<open>{1: 6}\<close>.
\<close>

theorem erase_counterexample:
  "map_ok [(1::int, 5::int)]
   \<and> erase \<lparr>m_map = [(1::int, 5::int)]\<rparr> 1 (Some increment_and_refuse) ()
       = (\<lparr>m_map = [(1, 6)]\<rparr>, False, ())
   \<and> fst (erase \<lparr>m_map = [(1::int, 5::int)]\<rparr> 1 (Some increment_and_refuse) ())
       \<noteq> \<lparr>m_map = [(1, 5)]\<rparr>"
  by (simp add: erase_def map_find_def map_lower_bound_def map_end_def map_ok_def
        increment_and_refuse_def)


lemma findInfimum_fst:
  "findInfimum t k = (snd (fst (findInfimum_key t k)), snd (findInfimum_key t k))"
  by (simp add: findInfimum_def findInfimum_key_def Let_def)

lemma lower_bound_exact:
  assumes ok: "map_ok m" and p: "map_of m k = Some v"
  shows "map_lower_bound m k < length m \<and> m ! map_lower_bound m k = (k, v)"
proof -
  from ok p have "(k, v) \<in> set m" by (simp add: map_of_mem)
  then have "map_find m k < length m \<and> m ! map_find m k = (k, v)"
    by (rule map_find_present [OF ok])
  then show ?thesis using map_find_lower_bound [of m k] by auto
qed

lemma lower_bound_not_exact:
  assumes "map_of m k = None" "map_lower_bound m k < length m"
  shows "fst (m ! map_lower_bound m k) \<noteq> k"
proof
  assume "fst (m ! map_lower_bound m k) = k"
  moreover from assms(2) have "m ! map_lower_bound m k \<in> set m" by simp
  ultimately have "k \<in> fst ` set m" by (metis imageI)
  with assms(1) show False by (simp add: map_of_eq_None_iff)
qed

lemma findInfimum_key_exact:
  assumes ok: "map_ok (m_map t)" and p: "map_of (m_map t) k = Some v"
  shows "findInfimum_key t k = ((k, v), True)"
  using lower_bound_exact [OF ok p]
  by (simp add: findInfimum_key_def map_end_def Let_def)

lemma findInfimum_key_pred:
  assumes a: "map_of (m_map t) k = None" and pos: "0 < map_lower_bound (m_map t) k"
  shows "findInfimum_key t k = (m_map t ! (map_lower_bound (m_map t) k - 1), True)"
  using lower_bound_not_exact [OF a] pos lower_bound_le [of "m_map t" k]
  by (auto simp: findInfimum_key_def map_end_def map_begin_def Let_def)

lemma findInfimum_key_none:
  assumes a: "map_of (m_map t) k = None" and z: "map_lower_bound (m_map t) k = 0"
  shows "findInfimum_key t k = ((default, default), False)"
  using lower_bound_not_exact [OF a] z
  by (auto simp: findInfimum_key_def map_end_def map_begin_def Let_def)

lemma pred_is_greatest:
  assumes ok: "map_ok m" and a: "map_of m k = None" and pos: "0 < map_lower_bound m k"
  shows "m ! (map_lower_bound m k - 1) \<in> set m \<and> fst (m ! (map_lower_bound m k - 1)) \<le> k
       \<and> (\<forall>e\<in>set m. fst e \<le> k \<longrightarrow> fst e \<le> fst (m ! (map_lower_bound m k - 1)))"
proof -
  let ?i = "map_lower_bound m k"
  from pos have lt: "?i - 1 < ?i" by simp
  with lower_bound_le [of m k] have len: "?i - 1 < length m" by simp
  then have 1: "m ! (?i - 1) \<in> set m" by simp
  have 2: "fst (m ! (?i - 1)) \<le> k" using lower_bound_before [OF lt] by simp
  have 3: "fst e \<le> fst (m ! (?i - 1))" if e: "e \<in> set m" and le: "fst e \<le> k" for e
  proof -
    from e obtain j where j: "j < length m" "m ! j = e" by (auto simp: in_set_conv_nth)
    have "j < ?i"
    proof (rule ccontr)
      assume "\<not> j < ?i"
      then have "k \<le> fst (m ! j)" using lower_bound_after [OF ok _ j(1)] by simp
      with le j have "fst e = k" by simp
      then have "k \<in> fst ` set m" using e by (metis imageI)
      with a show False by (simp add: map_of_eq_None_iff)
    qed
    then have "j = ?i - 1 \<or> j < ?i - 1" by linarith
    then show ?thesis
    proof
      assume "j = ?i - 1" with j show ?thesis by simp
    next
      assume "j < ?i - 1"
      then have "fst (m ! j) < fst (m ! (?i - 1))" using map_ok_nth_less [OF ok _ len] by simp
      with j show ?thesis by simp
    qed
  qed
  from 1 2 3 show ?thesis by blast
qed

lemma none_all_greater:
  assumes ok: "map_ok m" and a: "map_of m k = None" and z: "map_lower_bound m k = 0"
  shows "\<forall>e\<in>set m. k < fst e"
proof
  fix e assume e: "e \<in> set m"
  then obtain j where j: "j < length m" "m ! j = e" by (auto simp: in_set_conv_nth)
  have "k \<le> fst (m ! j)" using lower_bound_after [OF ok _ j(1), of k] z by simp
  moreover have "fst e \<noteq> k" using a e by (auto simp: map_of_eq_None_iff)
  ultimately show "k < fst e" using j by simp
qed


lemma findInfimum_key_cases:
  assumes ok: "map_ok (m_map t)"
  shows "snd (findInfimum_key t k) = (\<exists>e\<in>set (m_map t). fst e \<le> k)"
    and "snd (findInfimum_key t k) \<Longrightarrow>
           fst (findInfimum_key t k) \<in> set (m_map t) \<and> fst (fst (findInfimum_key t k)) \<le> k
           \<and> (\<forall>e\<in>set (m_map t). fst e \<le> k \<longrightarrow> fst e \<le> fst (fst (findInfimum_key t k)))"
    and "(\<not> snd (findInfimum_key t k)) =
           (map_lower_bound (m_map t) k = map_begin (m_map t) \<and> map_of (m_map t) k = None)"
proof -
  let ?m = "m_map t"
  let ?r = "findInfimum_key t k"
  have "(snd ?r = (\<exists>e\<in>set ?m. fst e \<le> k))
      \<and> (snd ?r \<longrightarrow> fst ?r \<in> set ?m \<and> fst (fst ?r) \<le> k
            \<and> (\<forall>e\<in>set ?m. fst e \<le> k \<longrightarrow> fst e \<le> fst (fst ?r)))
      \<and> ((\<not> snd ?r) = (map_lower_bound ?m k = map_begin ?m \<and> map_of ?m k = None))"
  proof (cases "map_of ?m k")
    case (Some v)
    then have r: "?r = ((k, v), True)" by (rule findInfimum_key_exact [OF ok])
    from ok Some have "(k, v) \<in> set ?m" by (simp add: map_of_mem)
    with r Some show ?thesis by force
  next
    case None
    show ?thesis
    proof (cases "map_lower_bound ?m k = 0")
      case True
      with None have "?r = ((default, default), False)" by (rule findInfimum_key_none)
      moreover have "\<forall>e\<in>set ?m. k < fst e" using ok None True by (rule none_all_greater)
      ultimately show ?thesis using None True by (auto simp: map_begin_def)
    next
      case False
      then have pos: "0 < map_lower_bound ?m k" by simp
      with None have "?r = (?m ! (map_lower_bound ?m k - 1), True)"
        by (rule findInfimum_key_pred)
      moreover note pred_is_greatest [OF ok None pos]
      ultimately show ?thesis using False by (auto simp: map_begin_def)
    qed
  qed
  then show "snd ?r = (\<exists>e\<in>set ?m. fst e \<le> k)"
    and "snd ?r \<Longrightarrow> fst ?r \<in> set ?m \<and> fst (fst ?r) \<le> k
           \<and> (\<forall>e\<in>set ?m. fst e \<le> k \<longrightarrow> fst e \<le> fst (fst ?r))"
    and "(\<not> snd ?r) = (map_lower_bound ?m k = map_begin ?m \<and> map_of ?m k = None)"
    by blast+
qed

lemma findInfimum_examples:
  "findInfimum \<lparr>m_map = [(1::int, ''a''), (5, ''b''), (10, ''c'')]\<rparr> 7 = (''b'', True)"
  "snd (findInfimum \<lparr>m_map = [(1::int, ''a''), (5, ''b''), (10, ''c'')]\<rparr> 0) = False"
  "findInfimum \<lparr>m_map = [(1::int, ''a''), (5, ''b''), (10, ''c'')]\<rparr> 5 = (''b'', True)"
  "findInfimum_key \<lparr>m_map = [(1::int, ''a''), (5, ''b''), (10, ''c'')]\<rparr> 7 = ((5, ''b''), True)"
  "snd (findInfimum_key \<lparr>m_map = [(1::int, ''a''), (5, ''b''), (10, ''c'')]\<rparr> 0) = False"
  "findInfimum_key \<lparr>m_map = [(1::int, ''a''), (5, ''b''), (10, ''c'')]\<rparr> 5 = ((5, ''b''), True)"
  by (simp_all add: findInfimum_def findInfimum_key_def map_lower_bound_def map_end_def
        map_begin_def)

text \<open>
  Claim C2. \<^verbatim>\<open>findInfimum(k)\<close> returns what \<^verbatim>\<open>findInfimum_key(k)\<close> returns, without the key.
  It reports found exactly when some key is less than or equal to \<open>k\<close>, and then the entry
  returned is an entry of the map whose key is the greatest one less than or equal to \<open>k\<close>.
  An exact match is returned as it is; otherwise, past the first position, the entry just
  before the lower bound is returned. Not found is reported exactly when the lower bound
  is the first position and \<open>k\<close> is not a key, that is, when the map is empty or every key
  exceeds \<open>k\<close>. On \<open>{1: "a", 5: "b", 10: "c"}\<close>, the query 7 gives \<open>("b", true)\<close>, the query 0
  gives not found, and the query 5 gives \<open>("b", true)\<close>.
\<close>

theorem findInfimum_greatest_below:
  assumes ok: "map_ok (m_map t)"
  shows "findInfimum t k = (snd (fst (findInfimum_key t k)), snd (findInfimum_key t k))
    \<and> snd (findInfimum_key t k) = (\<exists>e\<in>set (m_map t). fst e \<le> k)
    \<and> (snd (findInfimum_key t k) \<longrightarrow>
         fst (findInfimum_key t k) \<in> set (m_map t) \<and> fst (fst (findInfimum_key t k)) \<le> k
         \<and> (\<forall>e\<in>set (m_map t). fst e \<le> k \<longrightarrow> fst e \<le> fst (fst (findInfimum_key t k))))
    \<and> (map_of (m_map t) k = Some v \<longrightarrow> findInfimum_key t k = ((k, v), True))
    \<and> (map_of (m_map t) k = None \<and> 0 < map_lower_bound (m_map t) k \<longrightarrow>
         findInfimum_key t k = (m_map t ! (map_lower_bound (m_map t) k - 1), True))
    \<and> (\<not> snd (findInfimum_key t k)) =
         (map_lower_bound (m_map t) k = map_begin (m_map t) \<and> map_of (m_map t) k = None)
    \<and> (\<not> snd (findInfimum_key t k)) = (m_map t = [] \<or> (\<forall>e\<in>set (m_map t). k < fst e))
    \<and> findInfimum \<lparr>m_map = [(1::int, ''a''), (5, ''b''), (10, ''c'')]\<rparr> 7 = (''b'', True)
    \<and> snd (findInfimum \<lparr>m_map = [(1::int, ''a''), (5, ''b''), (10, ''c'')]\<rparr> 0) = False
    \<and> findInfimum \<lparr>m_map = [(1::int, ''a''), (5, ''b''), (10, ''c'')]\<rparr> 5 = (''b'', True)
    \<and> findInfimum_key \<lparr>m_map = [(1::int, ''a''), (5, ''b''), (10, ''c'')]\<rparr> 7 = ((5, ''b''), True)
    \<and> snd (findInfimum_key \<lparr>m_map = [(1::int, ''a''), (5, ''b''), (10, ''c'')]\<rparr> 0) = False
    \<and> findInfimum_key \<lparr>m_map = [(1::int, ''a''), (5, ''b''), (10, ''c'')]\<rparr> 5 = ((5, ''b''), True)"
proof -
  note c = findInfimum_key_cases [OF ok, of k]
  have e: "(\<not> snd (findInfimum_key t k)) = (m_map t = [] \<or> (\<forall>e\<in>set (m_map t). k < fst e))"
    unfolding c(1) by (cases "m_map t") auto
  show ?thesis
    apply (intro conjI impI)
                apply (rule findInfimum_fst)
               apply (rule c(1))
              apply (simp add: c(2))
             apply (simp add: c(2))
            apply (simp add: c(2))
           apply (erule findInfimum_key_exact [OF ok])
          apply (elim conjE, erule (1) findInfimum_key_pred)
         apply (rule c(3))
        apply (rule e)
       apply (rule findInfimum_examples)+
    done
qed

text \<open>
  The theorem at the map \<open>{1: "a", 5: "b", 10: "c"}\<close>: the exact match 5, and the query 7,
  which is not a key and has its lower bound at position 2.
\<close>

theorem findInfimum_greatest_below_witness:
  "map_ok (m_map \<lparr>m_map = [(1::int, ''a''), (5, ''b''), (10, ''c'')]\<rparr>)
   \<and> map_of (m_map \<lparr>m_map = [(1::int, ''a''), (5, ''b''), (10, ''c'')]\<rparr>) 5 = Some ''b'' \<and> findInfimum_key \<lparr>m_map = [(1::int, ''a''), (5, ''b''), (10, ''c'')]\<rparr> 5 = ((5, ''b''), True)
   \<and> map_of (m_map \<lparr>m_map = [(1::int, ''a''), (5, ''b''), (10, ''c'')]\<rparr>) 7 = None \<and> 0 < map_lower_bound (m_map \<lparr>m_map = [(1::int, ''a''), (5, ''b''), (10, ''c'')]\<rparr>) 7
   \<and> snd (findInfimum_key \<lparr>m_map = [(1::int, ''a''), (5, ''b''), (10, ''c'')]\<rparr> 7)
   \<and> findInfimum_key \<lparr>m_map = [(1::int, ''a''), (5, ''b''), (10, ''c'')]\<rparr> 7 = (m_map \<lparr>m_map = [(1::int, ''a''), (5, ''b''), (10, ''c'')]\<rparr> ! (map_lower_bound (m_map \<lparr>m_map = [(1::int, ''a''), (5, ''b''), (10, ''c'')]\<rparr>) 7 - 1), True)
   \<and> (5, ''b'') \<in> set (m_map \<lparr>m_map = [(1::int, ''a''), (5, ''b''), (10, ''c'')]\<rparr>) \<and> (5::int) \<le> 7
   \<and> fst (fst (findInfimum_key \<lparr>m_map = [(1::int, ''a''), (5, ''b''), (10, ''c'')]\<rparr> 7)) = 5"
proof -
  have 1: "map_ok (m_map \<lparr>m_map = [(1::int, ''a''), (5, ''b''), (10, ''c'')]\<rparr>)" by (simp add: map_ok_def)
  have 2: "map_of (m_map \<lparr>m_map = [(1::int, ''a''), (5, ''b''), (10, ''c'')]\<rparr>) 5 = Some ''b''" by simp
  have 3: "map_of (m_map \<lparr>m_map = [(1::int, ''a''), (5, ''b''), (10, ''c'')]\<rparr>) 7 = None" by simp
  have 4: "map_lower_bound (m_map \<lparr>m_map = [(1::int, ''a''), (5, ''b''), (10, ''c'')]\<rparr>) 7 = 2" by (simp add: map_lower_bound_def)
  show ?thesis
    using 1 2 3 4 findInfimum_greatest_below [OF 1, where k = 5 and v = "''b''"]
      findInfimum_greatest_below [OF 1, where k = 7 and v = "''b''"]
    by simp
qed

lemma delete_if_loop_spec:
  "it \<le> length m \<Longrightarrow>
     delete_if_loop f m it n s =
       (case delete_if_spec f (drop it m) s of (m', c, s') \<Rightarrow> (take it m @ m', n + c, s'))"
proof (induction "length m - it" arbitrary: m it n s rule: less_induct)
  case less
  show ?case
  proof (cases "it < length m")
    case False
    with less.prems have "it = length m" by simp
    then show ?thesis by (subst delete_if_loop.simps) (simp add: map_end_def)
  next
    case True
    obtain k v0 where e: "m ! it = (k, v0)" by (cases "m ! it") auto
    obtain del v' s' where fr: "f k v0 s = (del, v', s')" by (cases "f k v0 s") auto
    define m1 where "m1 = m[it := (k, v')]"
    have dr: "drop it m = (k, v0) # drop (Suc it) m"
      using True e Cons_nth_drop_Suc [of it m] by simp
    obtain r c s'' where rest: "delete_if_spec f (drop (Suc it) m) s' = (r, c, s'')"
      by (cases "delete_if_spec f (drop (Suc it) m) s'") auto
    have spec: "delete_if_spec f (drop it m) s
        = (if del then (r, Suc c, s'') else ((k, v') # r, c, s''))"
      using fr rest by (simp add: dr)
    show ?thesis
    proof (cases del)
      case del: True
      define m2 where "m2 = take it m1 @ drop (Suc it) m1"
      have m2: "m2 = take it m @ drop (Suc it) m" by (simp add: m2_def m1_def)
      have step: "delete_if_loop f m it n s = delete_if_loop f m2 it (n + 1) s'"
        using True fr del
        by (subst delete_if_loop.simps)
           (simp add: map_end_def map_erase_it_def m2_def m1_def e)
      have l2: "length m2 - it < length m - it" "it \<le> length m2"
        using True by (simp_all add: m2)
      have t2: "take it m2 = take it m" "drop it m2 = drop (Suc it) m"
        using True by (simp_all add: m2)
      have "delete_if_loop f m2 it (n + 1) s' = (take it m @ r, n + 1 + c, s'')"
        using less.hyps [OF l2, of "n + 1" s'] rest by (simp add: t2)
      with step spec del show ?thesis by simp
    next
      case keep: False
      have step: "delete_if_loop f m it n s = delete_if_loop f m1 (it + 1) n s'"
        using True fr keep
        by (subst delete_if_loop.simps) (simp add: map_end_def m1_def e)
      have l1: "length m1 - (it + 1) < length m - it" "it + 1 \<le> length m1"
        using True by (simp_all add: m1_def)
      have t1: "take (it + 1) m1 = take it m @ [(k, v')]" "drop (it + 1) m1 = drop (Suc it) m"
        using True by (simp_all add: m1_def take_Suc_conv_app_nth)
      have "delete_if_loop f m1 (it + 1) n s' = ((take it m @ [(k, v')]) @ r, n + c, s'')"
        using less.hyps [OF l1, of n s'] rest by (simp only: t1 prod.case)
      with step spec keep show ?thesis by simp
    qed
  qed
qed

lemma delete_if_is_spec:
  "delete_if t f s = (case delete_if_spec f (m_map t) s of (m', n, s') \<Rightarrow> (t\<lparr>m_map := m'\<rparr>, n, s'))"
  by (simp add: delete_if_def map_begin_def delete_if_loop_spec split: prod.splits)

lemma delete_if_spec_log:
  "delete_if_spec (\<lambda>k v log. (p k v, v, log @ [(k, v)])) m log0
     = (filter (\<lambda>(k, v). \<not> p k v) m, length (filter (\<lambda>(k, v). p k v) m), log0 @ m)"
  by (induction m arbitrary: log0) auto

lemma delete_if_spec_pure:
  "delete_if_spec (\<lambda>k v s. (p k v, v, s)) m s0
     = (filter (\<lambda>(k, v). \<not> p k v) m, length (filter (\<lambda>(k, v). p k v) m), s0)"
  by (induction m) auto

text \<open>
  Claim C6. \<^verbatim>\<open>delete_if(fn)\<close> is one pass over the entries in the order of the storage,
  ascending by key: the loop over iterators computes what \<^const>\<open>delete_if_spec\<close> computes,
  for every callback, also one that writes to the values or to its own state. For a
  predicate \<open>p\<close> the entries left are those on which \<open>p\<close> is false, in place and unchanged,
  and the result is the number of entries on which \<open>p\<close> is true. A callback that records
  its calls records exactly the entries of the map, each once, in ascending order, none
  skipped or visited again after an erase. On keys 1 to 5 with \<open>k % 2 == 0\<close> the keys 2
  and 4 are erased, 2 is returned and 1, 3, 5 are left.
\<close>

theorem delete_if_one_pass:
  "delete_if t f s =
     (case delete_if_spec f (m_map t) s of (m', n, s') \<Rightarrow> (t\<lparr>m_map := m'\<rparr>, n, s'))
   \<and> delete_if t (\<lambda>k v s. (p k v, v, s)) s0 =
       (t\<lparr>m_map := filter (\<lambda>(k, v). \<not> p k v) (m_map t)\<rparr>,
        length (filter (\<lambda>(k, v). p k v) (m_map t)), s0)
   \<and> delete_if t (\<lambda>k v log. (p k v, v, log @ [(k, v)])) [] =
       (t\<lparr>m_map := filter (\<lambda>(k, v). \<not> p k v) (m_map t)\<rparr>,
        length (filter (\<lambda>(k, v). p k v) (m_map t)), m_map t)
   \<and> delete_if \<lparr>m_map = [(1::int, a), (2, b), (3, c), (4, d), (5, e)]\<rparr>
       (\<lambda>k v s. (k mod 2 = 0, v, s)) s1 =
       (\<lparr>m_map = [(1, a), (3, c), (5, e)]\<rparr>, 2, s1)"
  by (simp add: delete_if_is_spec delete_if_spec_log delete_if_spec_pure)

text \<open>
  The theorem at the map \<open>{1: "a", 2: "b", 3: "c", 4: "d", 5: "e"}\<close> with the predicate
  \<open>k % 2 == 0\<close>, recording the calls.
\<close>

theorem delete_if_one_pass_witness:
  "delete_if \<lparr>m_map = [(1::int, ''a''), (2, ''b''), (3, ''c''), (4, ''d''), (5, ''e'')]\<rparr>
     (\<lambda>k v log. (k mod 2 = 0, v, log @ [(k, v)])) []
   = (\<lparr>m_map = [(1, ''a''), (3, ''c''), (5, ''e'')]\<rparr>, 2,
      [(1, ''a''), (2, ''b''), (3, ''c''), (4, ''d''), (5, ''e'')])"
  using delete_if_one_pass
    [where t = "\<lparr>m_map = [(1::int, ''a''), (2, ''b''), (3, ''c''), (4, ''d''), (5, ''e'')]\<rparr>"
       and p = "\<lambda>k v. k mod 2 = 0" and f = "\<lambda>k v s. (False, v, s)" and s = "()"
       and ?s0.0 = "()" and ?s1.0 = "()" and a = "()" and b = "()" and c = "()" and d = "()"
       and e = "()"]
  by (simp add: numeral_2_eq_2)


end
